theory Spec2Isabelle
  imports Complex_Main
begin

section \<open>Data model (models.py)\<close>

text \<open>
  \<^verbatim>\<open>class FeedbackType(str, Enum)\<close> has four members. \<^verbatim>\<open>CodeFeedback\<close> is a
  pydantic model; its \<^verbatim>\<open>severity\<close> field is a Python \<^verbatim>\<open>int\<close> (the comment says
  "1-5 scale", nothing validates it), so it is an unbounded integer here.
\<close>

datatype FeedbackType = ERROR | WARNING | SUGGESTION | INFO

record CodeFeedback =
  "file" :: string
  line :: int
  type :: FeedbackType
  message :: string
  severity :: int
  suggestion :: "string option"

section \<open>Exceptions\<close>

text \<open>
  A function of the analyzer that can raise returns a sum, the exception on the
  left. The exceptions are \<^verbatim>\<open>IndexError\<close> and \<^verbatim>\<open>re.error\<close>. The third value is not
  a Python exception: it marks a pattern written in \<^verbatim>\<open>re\<close> syntax outside the
  fragment modelled below, about which nothing is stated.
\<close>

datatype py_error = IndexError | ReError | PatternNotModelled

section \<open>Python strings, lists and dictionaries\<close>

text \<open>
  A Python \<^verbatim>\<open>str\<close> is a sequence of code points. A \<^typ>\<open>string\<close> here holds one
  \<^typ>\<open>char\<close> per code point, which covers the texts whose code points lie in
  0..255 (ASCII and Latin-1); \<^const>\<open>length\<close> is then Python's \<^verbatim>\<open>len\<close>.
  The operations below are the \<^verbatim>\<open>str\<close> methods the analyzer calls.
\<close>

definition newline :: char where
  "newline = CHR 0x0A"

definition startswith :: "string \<Rightarrow> string \<Rightarrow> bool" where
  "startswith s p = (take (length p) s = p)"

definition endswith :: "string \<Rightarrow> string \<Rightarrow> bool" where
  "endswith s p = (length p \<le> length s \<and> drop (length s - length p) s = p)"

text \<open>\<^verbatim>\<open>s.split(sep)\<close> for a one-character separator: never an empty list.\<close>

fun split_from :: "char \<Rightarrow> string \<Rightarrow> string \<Rightarrow> string list" where
  "split_from sep acc [] = [rev acc]"
| "split_from sep acc (c # cs) =
     (if c = sep then rev acc # split_from sep [] cs else split_from sep (c # acc) cs)"

definition str_split :: "string \<Rightarrow> char \<Rightarrow> string list" where
  "str_split s sep = split_from sep [] s"

text \<open>
  Character classes on the code points 0..255: \<^verbatim>\<open>str.isspace\<close> (also the class
  \<^verbatim>\<open>\s\<close> of \<^verbatim>\<open>re\<close>), the word characters \<^verbatim>\<open>\w\<close> (alphanumeric or underscore) and
  \<^verbatim>\<open>str.lower\<close> on one character.
\<close>

definition ord :: "char \<Rightarrow> nat" where
  "ord c = of_char c"

definition isspace :: "char \<Rightarrow> bool" where
  "isspace c = (let n = ord c in (9 \<le> n \<and> n \<le> 13) \<or> (28 \<le> n \<and> n \<le> 32) \<or> n = 133 \<or> n = 160)"

definition isword :: "char \<Rightarrow> bool" where
  "isword c =
     (let n = ord c in
        (48 \<le> n \<and> n \<le> 57) \<or> (65 \<le> n \<and> n \<le> 90) \<or> n = 95 \<or> (97 \<le> n \<and> n \<le> 122)
        \<or> n = 170 \<or> n = 178 \<or> n = 179 \<or> n = 181 \<or> n = 185 \<or> n = 186
        \<or> (188 \<le> n \<and> n \<le> 190) \<or> (192 \<le> n \<and> n \<le> 214) \<or> (216 \<le> n \<and> n \<le> 246)
        \<or> (248 \<le> n \<and> n \<le> 255))"

definition lower :: "char \<Rightarrow> char" where
  "lower c =
     (let n = ord c in
        if (65 \<le> n \<and> n \<le> 90) \<or> (192 \<le> n \<and> n \<le> 222 \<and> n \<noteq> 215) then char_of (n + 32)
        else c)"

text \<open>\<^verbatim>\<open>s.strip()\<close>, and \<^verbatim>\<open>sub in s\<close> for strings.\<close>

definition str_strip :: "string \<Rightarrow> string" where
  "str_strip s = rev (dropWhile isspace (rev (dropWhile isspace s)))"

fun suffixes_of :: "string \<Rightarrow> string list" where
  "suffixes_of [] = [[]]"
| "suffixes_of (c # cs) = (c # cs) # suffixes_of cs"

definition contains :: "string \<Rightarrow> string \<Rightarrow> bool" where
  "contains s sub = list_ex (\<lambda>t. startswith t sub) (suffixes_of s)"

text \<open>\<^verbatim>\<open>xs[-1]\<close> raises \<^verbatim>\<open>IndexError\<close> on the empty list.\<close>

definition index_last :: "'a list \<Rightarrow> py_error + 'a" where
  "index_last xs = (if xs = [] then Inl IndexError else Inr (last xs))"

text \<open>
  A \<^verbatim>\<open>dict\<close> keeps its keys in insertion order, and assigning to a key that is
  present replaces the value in place: an association list with distinct keys.
\<close>

fun dict_set :: "('k \<times> 'v) list \<Rightarrow> 'k \<Rightarrow> 'v \<Rightarrow> ('k \<times> 'v) list" where
  "dict_set [] k v = [(k, v)]"
| "dict_set ((k', v') # d) k v =
     (if k' = k then (k, v) # d else (k', v') # dict_set d k v)"

section \<open>Regular expressions (the fragment of module re the analyzer uses)\<close>

text \<open>
  The patterns of the analyzer are built from literal characters, the escapes
  \<^verbatim>\<open>\s\<close> and \<^verbatim>\<open>\w\<close>, escaped punctuation, the dot, character sets \<^verbatim>\<open>[...]\<close> and
  \<^verbatim>\<open>[^...]\<close>, the repetitions \<^verbatim>\<open>*\<close>, \<^verbatim>\<open>+\<close> and \<^verbatim>\<open>?\<close> on one character,
  alternation \<^verbatim>\<open>|\<close> and the end anchor \<^verbatim>\<open>$\<close>. A compiled pattern is a list of
  alternatives, each a sequence of pieces.
\<close>

datatype item = Chr char | Space | Word

datatype atom = One item | Dot | In "item list" | NotIn "item list"

datatype rep = Once | Star | Plus | Opt

datatype piece = Rep atom rep | Eol

type_synonym regex = "piece list list"

text \<open>
  Compiling a pattern text. \<^verbatim>\<open>re\<close> raises \<^verbatim>\<open>re.error\<close> for a set that is not
  closed, a repetition with nothing to repeat (at the start of an alternative or
  after \<^verbatim>\<open>$\<close>) and a backslash at the end of the pattern. Groups, \<^verbatim>\<open>^\<close>,
  \<^verbatim>\<open>{\<close>, ranges in sets, escapes by other letters or digits and a repetition
  sign after a repetition are outside the fragment.
\<close>

datatype mode = Top | InSet bool "item list"

definition backslash :: char where "backslash = CHR 0x5C"
definition dquote :: char where "dquote = CHR 0x22"
definition squote :: char where "squote = CHR 0x27"

datatype re_outcome = Compiled regex | Malformed | NotModelled

definition ascii_alnum :: "char \<Rightarrow> bool" where
  "ascii_alnum c =
     (let n = ord c in (48 \<le> n \<and> n \<le> 57) \<or> (65 \<le> n \<and> n \<le> 90) \<or> (97 \<le> n \<and> n \<le> 122))"

definition escape_item :: "char \<Rightarrow> item option" where
  "escape_item e =
     (if e = CHR ''s'' then Some Space
      else if e = CHR ''w'' then Some Word
      else if ascii_alnum e then None
      else Some (Chr e))"

fun compile_from :: "piece list list \<Rightarrow> piece list \<Rightarrow> mode \<Rightarrow> string \<Rightarrow> re_outcome" where
  "compile_from alts seq Top [] = Compiled (rev (rev seq # alts))"
| "compile_from alts seq (InSet neg its) [] = Malformed"
| "compile_from alts seq (InSet neg its) (c # cs) =
     (if c = CHR '']'' \<and> its \<noteq> [] then
        compile_from alts (Rep (if neg then NotIn (rev its) else In (rev its)) Once # seq) Top cs
      else if c = backslash then
        (case cs of
           [] \<Rightarrow> Malformed
         | e # cs' \<Rightarrow>
             (case escape_item e of
                None \<Rightarrow> NotModelled
              | Some i \<Rightarrow> compile_from alts seq (InSet neg (i # its)) cs'))
      else if c = CHR ''-'' then NotModelled
      else compile_from alts seq (InSet neg (Chr c # its)) cs)"
| "compile_from alts seq Top (c # cs) =
     (if c = CHR ''|'' then compile_from (rev seq # alts) [] Top cs
      else if c = CHR ''*'' \<or> c = CHR ''+'' \<or> c = CHR ''?'' then
        (case seq of
           [] \<Rightarrow> Malformed
         | Eol # seq' \<Rightarrow> Malformed
         | Rep a Once # seq' \<Rightarrow>
             compile_from alts
               (Rep a (if c = CHR ''*'' then Star else if c = CHR ''+'' then Plus else Opt) # seq')
               Top cs
         | Rep a r # seq' \<Rightarrow> NotModelled)
      else if c = backslash then
        (case cs of
           [] \<Rightarrow> Malformed
         | e # cs' \<Rightarrow>
             (case escape_item e of
                None \<Rightarrow> NotModelled
              | Some i \<Rightarrow> compile_from alts (Rep (One i) Once # seq) Top cs'))
      else if c = CHR ''['' then
        (case cs of
           [] \<Rightarrow> Malformed
         | e # cs' \<Rightarrow>
             if e = CHR ''^'' then compile_from alts seq (InSet True []) cs'
             else compile_from alts seq (InSet False []) cs)
      else if c = CHR ''.'' then compile_from alts (Rep Dot Once # seq) Top cs
      else if c = CHR ''$'' then compile_from alts (Eol # seq) Top cs
      else if c = CHR ''('' \<or> c = CHR '')'' \<or> c = CHR ''{'' \<or> c = CHR ''^'' then NotModelled
      else compile_from alts (Rep (One (Chr c)) Once # seq) Top cs)"

text \<open>
  Matching. With \<^verbatim>\<open>re.IGNORECASE\<close> a literal matches a character with the same
  lower-case form. The dot matches any character but a newline; \<^verbatim>\<open>$\<close> matches at
  the end of the string and before a newline that ends it. \<^term>\<open>match_pieces ic ps s\<close>
  holds when the sequence \<open>ps\<close> matches some prefix of \<open>s\<close>; \<^verbatim>\<open>re\<close> finds a match
  by backtracking exactly when there is one.
\<close>

fun item_matches :: "bool \<Rightarrow> item \<Rightarrow> char \<Rightarrow> bool" where
  "item_matches ic (Chr c) d = (if ic then lower d = lower c else d = c)"
| "item_matches ic Space d = isspace d"
| "item_matches ic Word d = isword d"

fun atom_matches :: "bool \<Rightarrow> atom \<Rightarrow> char \<Rightarrow> bool" where
  "atom_matches ic (One i) d = item_matches ic i d"
| "atom_matches ic Dot d = (d \<noteq> newline)"
| "atom_matches ic (In its) d = list_ex (\<lambda>i. item_matches ic i d) its"
| "atom_matches ic (NotIn its) d = (\<not> list_ex (\<lambda>i. item_matches ic i d) its)"

fun match_pieces :: "bool \<Rightarrow> piece list \<Rightarrow> string \<Rightarrow> bool" where
  "match_pieces ic [] s = True"
| "match_pieces ic (Eol # ps) s = ((s = [] \<or> s = [newline]) \<and> match_pieces ic ps s)"
| "match_pieces ic (Rep a Once # ps) [] = False"
| "match_pieces ic (Rep a Once # ps) (c # cs) = (atom_matches ic a c \<and> match_pieces ic ps cs)"
| "match_pieces ic (Rep a Star # ps) [] = match_pieces ic ps []"
| "match_pieces ic (Rep a Star # ps) (c # cs) =
     (match_pieces ic ps (c # cs) \<or> (atom_matches ic a c \<and> match_pieces ic (Rep a Star # ps) cs))"
| "match_pieces ic (Rep a Plus # ps) [] = False"
| "match_pieces ic (Rep a Plus # ps) (c # cs) =
     (atom_matches ic a c \<and> match_pieces ic (Rep a Star # ps) cs)"
| "match_pieces ic (Rep a Opt # ps) [] = match_pieces ic ps []"
| "match_pieces ic (Rep a Opt # ps) (c # cs) =
     (match_pieces ic ps (c # cs) \<or> (atom_matches ic a c \<and> match_pieces ic ps cs))"

definition re_compile :: "string \<Rightarrow> re_outcome" where
  "re_compile pattern = compile_from [] [] Top pattern"

text \<open>
  \<^verbatim>\<open>re.search(pattern, s, flags)\<close> and \<^verbatim>\<open>re.match(pattern, s)\<close>, as the analyzer
  uses their results: whether there is a match, anywhere or at the start of \<open>s\<close>.
\<close>

definition re_search :: "string \<Rightarrow> string \<Rightarrow> bool \<Rightarrow> py_error + bool" where
  "re_search pattern s ignorecase =
     (case re_compile pattern of
        Malformed \<Rightarrow> Inl ReError
      | NotModelled \<Rightarrow> Inl PatternNotModelled
      | Compiled r \<Rightarrow> Inr (list_ex (\<lambda>t. list_ex (\<lambda>ps. match_pieces ignorecase ps t) r) (suffixes_of s)))"

definition re_match :: "string \<Rightarrow> string \<Rightarrow> bool \<Rightarrow> py_error + bool" where
  "re_match pattern s ignorecase =
     (case re_compile pattern of
        Malformed \<Rightarrow> Inl ReError
      | NotModelled \<Rightarrow> Inl PatternNotModelled
      | Compiled r \<Rightarrow> Inr (list_ex (\<lambda>ps. match_pieces ignorecase ps s) r))"

section \<open>Diff parsing (CodeAnalyzer.\_parse\_diff)\<close>

text \<open>
  \<^verbatim>\<open>parts = line.split(' '); current_file = parts[-1][2:]\<close>: the last
  space-separated piece of the marker line without its first two characters.
\<close>

definition extract_filename :: "string \<Rightarrow> py_error + string" where
  "extract_filename l =
     (case index_last (str_split l CHR '' '') of
        Inl e \<Rightarrow> Inl e
      | Inr part \<Rightarrow> Inr (drop 2 part))"

text \<open>
  \<^verbatim>\<open>if current_file: files[current_file] = current_changes\<close>. Both \<^verbatim>\<open>None\<close> and
  the empty string are false in Python.
\<close>

definition store :: "(string \<times> string list) list \<Rightarrow> string option \<Rightarrow> string list
    \<Rightarrow> (string \<times> string list) list" where
  "store files current_file current_changes =
     (case current_file of
        None \<Rightarrow> files
      | Some f \<Rightarrow> if f = [] then files else dict_set files f current_changes)"

text \<open>
  The loop over \<^verbatim>\<open>diff_content.split('\n')\<close>, with the three variables it updates
  as arguments. \<^verbatim>\<open>current_changes\<close> is rebound to a fresh list after each store, so
  no stored list is appended to later.
\<close>

fun parse_lines :: "(string \<times> string list) list \<Rightarrow> string option \<Rightarrow> string list
    \<Rightarrow> string list \<Rightarrow> py_error + (string \<times> string list) list" where
  "parse_lines files current_file current_changes [] =
     Inr (store files current_file current_changes)"
| "parse_lines files current_file current_changes (l # rest) =
     (if startswith l ''diff --git'' then
        (case extract_filename l of
           Inl e \<Rightarrow> Inl e
         | Inr f \<Rightarrow> parse_lines (store files current_file current_changes) (Some f) [] rest)
      else if startswith l ''+'' \<and> \<not> startswith l ''+++'' then
        parse_lines files current_file (current_changes @ [drop 1 l]) rest
      else parse_lines files current_file current_changes rest)"

definition parse_diff :: "string \<Rightarrow> py_error + (string \<times> string list) list" where
  "parse_diff diff_content = parse_lines [] None [] (str_split diff_content newline)"

definition is_code_file :: "string \<Rightarrow> bool" where
  "is_code_file file_path =
     list_ex (endswith file_path)
       [''.py'', ''.js'', ''.ts'', ''.jsx'', ''.tsx'', ''.java'', ''.cpp'', ''.c'', ''.cs'',
        ''.php'', ''.rb'', ''.go'']"

text \<open>
  The parser's result in the specification's terms: the diff is a sequence of
  file sections, each opened by a marker line and carrying the added lines up to
  the next marker; the sections are stored one after the other.
\<close>

definition is_marker :: "string \<Rightarrow> bool" where
  "is_marker l = startswith l ''diff --git''"

definition is_added :: "string \<Rightarrow> bool" where
  "is_added l = (startswith l ''+'' \<and> \<not> startswith l ''+++'')"

definition added_lines :: "string list \<Rightarrow> string list" where
  "added_lines lns = map (drop 1) (filter is_added (takeWhile (\<lambda>l. \<not> is_marker l) lns))"

definition section_path :: "string \<Rightarrow> string" where
  "section_path l = drop 2 (last (str_split l CHR '' ''))"

fun sections :: "string list \<Rightarrow> (string \<times> string list) list" where
  "sections [] = []"
| "sections (l # rest) =
     (if is_marker l then (section_path l, added_lines rest) # sections rest
      else sections rest)"

definition store_all :: "(string \<times> string list) list \<Rightarrow> (string \<times> string list) list
    \<Rightarrow> (string \<times> string list) list" where
  "store_all files secs = foldl (\<lambda>fs (p, c). store fs (Some p) c) files secs"

definition diff_lines :: "string \<Rightarrow> string list" where
  "diff_lines diff_content = str_split diff_content newline"

text \<open>\<^verbatim>\<open>'\\n'.join(lines)\<close>, to write diff texts down line by line.\<close>

fun join_lines :: "string list \<Rightarrow> string" where
  "join_lines [] = []"
| "join_lines [l] = l"
| "join_lines (l # ls) = l @ newline # join_lines ls"

section \<open>Rule engine (CodeAnalyzer.\_\_init\_\_, \_check\_*\_patterns, \_analyze\_*)\<close>

text \<open>
  The two rule tables are attributes of the analyzer object, set by its
  constructor, each a list of pairs of a pattern text and a message. The pattern
  texts, as the (raw) Python literals give them:
  \<^verbatim>\<open>eval\s*\(\<close>, \<^verbatim>\<open>exec\s*\(\<close>, \<^verbatim>\<open>subprocess\.call\s*\(.*shell\s*=\s*True\<close>,
  \<^verbatim>\<open>sql.*\+.*\<close>, \<^verbatim>\<open>password\s*=\s*["\'][^"\']*["\']\<close>,
  \<^verbatim>\<open>api_key\s*=\s*["\'][^"\']*["\']\<close>; and
  \<^verbatim>\<open>def\s+\w+\([^)]*\):\s*$\<close>, \<^verbatim>\<open>class\s+\w+.*:\s*$\<close>, \<^verbatim>\<open>print\s*\(\<close>,
  \<^verbatim>\<open>TODO|FIXME|HACK\<close>.
  A string literal of the logic cannot hold a backslash or a quote, so these are
  spliced in as \<^const>\<open>backslash\<close>, \<^const>\<open>dquote\<close> and \<^const>\<open>squote\<close>.
\<close>

record CodeAnalyzer =
  security_patterns :: "(string \<times> string) list"
  quality_patterns :: "(string \<times> string) list"

definition init :: CodeAnalyzer where
  "init = \<lparr>
     security_patterns = [
       (''eval'' @ backslash # ''s*'' @ backslash # ''('',
        ''Avoid using eval() as it can execute arbitrary code''),
       (''exec'' @ backslash # ''s*'' @ backslash # ''('',
        ''Avoid using exec() as it can execute arbitrary code''),
       (''subprocess'' @ backslash # ''.call'' @ backslash # ''s*'' @ backslash # ''(.*shell''
          @ backslash # ''s*='' @ backslash # ''s*True'',
        ''Avoid shell=True in subprocess calls''),
       (''sql.*'' @ backslash # ''+.*'',
        ''Potential SQL injection - use parameterized queries''),
       (''password'' @ backslash # ''s*='' @ backslash # ''s*['' @ dquote # backslash # squote
          # '']['' @ [CHR ''^'', dquote, backslash, squote] @ '']*['' @ dquote # backslash # squote
          # '']'',
        ''Hardcoded password detected''),
       (''api_key'' @ backslash # ''s*='' @ backslash # ''s*['' @ dquote # backslash # squote
          # '']['' @ [CHR ''^'', dquote, backslash, squote] @ '']*['' @ dquote # backslash # squote
          # '']'',
        ''Hardcoded API key detected'')],
     quality_patterns = [
       (''def'' @ backslash # ''s+'' @ backslash # ''w+'' @ backslash # ''([^)]*'' @ backslash
          # ''):'' @ backslash # ''s*$'',
        ''Function missing docstring''),
       (''class'' @ backslash # ''s+'' @ backslash # ''w+.*:'' @ backslash # ''s*$'',
        ''Class missing docstring''),
       (''print'' @ backslash # ''s*'' @ backslash # ''('',
        ''Consider using logging instead of print statements''),
       (''TODO|FIXME|HACK'', ''TODO/FIXME comment found - consider addressing'')]\<rparr>"

text \<open>
  \<^verbatim>\<open>_check_security_patterns\<close> and \<^verbatim>\<open>_check_quality_patterns\<close> are the same loop
  over their table: \<^verbatim>\<open>if re.search(pattern, line, re.IGNORECASE): issues.append(message)\<close>.
  Nothing catches an exception of \<^verbatim>\<open>re.search\<close>: it ends the loop and the call.
\<close>

fun check_patterns :: "(string \<times> string) list \<Rightarrow> string \<Rightarrow> string list \<Rightarrow> py_error + string list" where
  "check_patterns [] l issues = Inr issues"
| "check_patterns ((pattern, msg) # rest) l issues =
     (case re_search pattern l True of
        Inl e \<Rightarrow> Inl e
      | Inr found \<Rightarrow> check_patterns rest l (if found then issues @ [msg] else issues))"

definition check_security_patterns :: "CodeAnalyzer \<Rightarrow> string \<Rightarrow> py_error + string list" where
  "check_security_patterns self l = check_patterns (security_patterns self) l []"

definition check_quality_patterns :: "CodeAnalyzer \<Rightarrow> string \<Rightarrow> py_error + string list" where
  "check_quality_patterns self l = check_patterns (quality_patterns self) l []"

text \<open>
  \<^verbatim>\<open>_analyze_python_line\<close>; the pattern is \<^verbatim>\<open>def\s+\w+\([^)]*\):\<close>, matched at the
  start of the line and case-sensitively. An issue is a dictionary with the keys
  type, message and severity, here a triple.
\<close>

definition analyze_python_line :: "string \<Rightarrow> py_error + (FeedbackType \<times> string \<times> int) list" where
  "analyze_python_line l =
     (case re_match (''def'' @ backslash # ''s+'' @ backslash # ''w+'' @ backslash # ''([^)]*''
                       @ backslash # ''):'') l False of
        Inl e \<Rightarrow> Inl e
      | Inr found \<Rightarrow>
          Inr ((if found \<and> \<not> contains l ''->''
                then [(SUGGESTION, ''Consider adding type hints for better code clarity'', 2)]
                else [])
             @ (if length (str_strip l) > 88
                then [(WARNING, ''Line exceeds recommended length (88 characters)'', 2)]
                else [])
             @ (if startswith (str_strip l) ''import '' \<and> \<not> contains l ''#''
                then [(INFO, ''Verify that this import is actually used'', 1)]
                else [])))"

text \<open>
  \<^verbatim>\<open>_analyze_file_changes\<close>: the body of its loop for one added line, and the loop
  over \<^verbatim>\<open>enumerate(changes, 1)\<close>. The coroutines of the analyzer are awaited one
  after the other, where they are called, so they are plain functions here.
\<close>

definition analyze_line :: "CodeAnalyzer \<Rightarrow> string \<Rightarrow> int \<Rightarrow> string \<Rightarrow> py_error + CodeFeedback list" where
  "analyze_line self file_path line_num line_content =
     (case check_security_patterns self line_content of
        Inl e \<Rightarrow> Inl e
      | Inr security_issues \<Rightarrow>
     (case check_quality_patterns self line_content of
        Inl e \<Rightarrow> Inl e
      | Inr quality_issues \<Rightarrow>
     (case (if endswith file_path ''.py'' then analyze_python_line line_content else Inr []) of
        Inl e \<Rightarrow> Inl e
      | Inr python_issues \<Rightarrow>
          Inr (map (\<lambda>issue. \<lparr>file = file_path, line = line_num, type = ERROR, message = issue,
                             severity = 5, suggestion = None\<rparr>) security_issues
             @ map (\<lambda>issue. \<lparr>file = file_path, line = line_num, type = WARNING, message = issue,
                               severity = 3, suggestion = None\<rparr>) quality_issues
             @ map (\<lambda>(t, m, s). \<lparr>file = file_path, line = line_num, type = t, message = m,
                                   severity = s, suggestion = None\<rparr>) python_issues))))"

fun analyze_lines :: "CodeAnalyzer \<Rightarrow> string \<Rightarrow> int \<Rightarrow> string list \<Rightarrow> CodeFeedback list
    \<Rightarrow> py_error + CodeFeedback list" where
  "analyze_lines self file_path line_num [] feedback = Inr feedback"
| "analyze_lines self file_path line_num (line_content # rest) feedback =
     (case analyze_line self file_path line_num line_content of
        Inl e \<Rightarrow> Inl e
      | Inr found \<Rightarrow> analyze_lines self file_path (line_num + 1) rest (feedback @ found))"

definition analyze_file_changes :: "CodeAnalyzer \<Rightarrow> string \<Rightarrow> string list \<Rightarrow> py_error + CodeFeedback list" where
  "analyze_file_changes self file_path changes = analyze_lines self file_path 1 changes []"

text \<open>
  For stating what the rule loops return: the messages of the rules of a table
  that match a line, in the order of the table; and whether \<^verbatim>\<open>re\<close> accepts a
  pattern text.
\<close>

definition matching :: "(string \<times> string) list \<Rightarrow> string \<Rightarrow> string list" where
  "matching pats l = map snd (filter (\<lambda>(p, m). re_search p l True = Inr True) pats)"

definition compiles :: "string \<Rightarrow> bool" where
  "compiles p = (case re_compile p of Compiled r \<Rightarrow> True | Malformed \<Rightarrow> False | NotModelled \<Rightarrow> False)"

section \<open>Scoring (CodeAnalyzer.\_calculate\_score)\<close>

text \<open>
  The accumulator \<^verbatim>\<open>total_penalty\<close> starts as the integer 0 and receives
  \<^verbatim>\<open>severity * 3\<close>, \<^verbatim>\<open>severity * 2\<close>, \<^verbatim>\<open>severity * 1\<close> or \<^verbatim>\<open>severity * 0.5\<close>.
  Only the last one is a float, and it is a multiple of one half, so every
  intermediate sum is a half-integer. The model computes the sums in the
  rationals. Binary floating point adds half-integers below \<open>2\<^sup>5\<^sup>2\<close> exactly, so
  the model returns what the code returns whenever the severities and the sums
  stay below that bound: for all integer arithmetic (no finding of kind info),
  and for every sequence with severities on the documented 1-5 scale, where a
  sum that has reached 100 gives the score 0 whatever is added later. Beyond the
  bound the code rounds, and it raises \<^verbatim>\<open>OverflowError\<close> for an info finding
  whose severity no float can hold; the model does not cover these inputs.
  \<^verbatim>\<open>int(score)\<close> truncates towards zero.
\<close>

definition py_int :: "rat \<Rightarrow> int" where
  "py_int x = (if 0 \<le> x then \<lfloor>x\<rfloor> else \<lceil>x\<rceil>)"

definition add_penalty :: "rat \<Rightarrow> CodeFeedback \<Rightarrow> rat" where
  "add_penalty total_penalty item =
     (if type item = ERROR then total_penalty + of_int (severity item * 3)
      else if type item = WARNING then total_penalty + of_int (severity item * 2)
      else if type item = SUGGESTION then total_penalty + of_int (severity item * 1)
      else total_penalty + of_int (severity item) * (1 / 2))"

definition calculate_score :: "CodeFeedback list \<Rightarrow> int" where
  "calculate_score feedback =
     (if feedback = [] then 100
      else let total_penalty = foldl add_penalty 0 feedback;
               score = max 0 (100 - min 100 total_penalty)
           in py_int score)"

text \<open>
  The scoring rule as the specification words it: a per-finding penalty by kind,
  summed, clamped to at most 100, subtracted from 100, floored, clamped to at
  least 0.
\<close>

definition spec_penalty :: "CodeFeedback \<Rightarrow> rat" where
  "spec_penalty f =
     (case type f of
        ERROR \<Rightarrow> of_int (severity f) * 3
      | WARNING \<Rightarrow> of_int (severity f) * 2
      | SUGGESTION \<Rightarrow> of_int (severity f) * 1
      | INFO \<Rightarrow> of_int (severity f) * (1 / 2))"

definition spec_score :: "CodeFeedback list \<Rightarrow> int" where
  "spec_score fs =
     (if fs = [] then 100
      else max 0 \<lfloor>100 - min 100 (sum_list (map spec_penalty fs))\<rfloor>)"

text \<open>The documented range of a finding's severity ("1-5 scale").\<close>

definition severity_in_scale :: "CodeFeedback \<Rightarrow> bool" where
  "severity_in_scale f = (1 \<le> severity f \<and> severity f \<le> 5)"

section \<open>The pipeline (CodeAnalyzer.analyze\_changes)\<close>

text \<open>
  The loop over \<^verbatim>\<open>diff_sections.items()\<close>, in insertion order, and the score of
  the collected feedback. Of the PR data only \<^verbatim>\<open>diff_content\<close> reaches the findings
  and the score, so it is the argument. Of the response, the score and the
  feedback are modelled; the summary, the recommendations and the echoed counts
  are not.
\<close>

fun analyze_files :: "CodeAnalyzer \<Rightarrow> (string \<times> string list) list \<Rightarrow> CodeFeedback list
    \<Rightarrow> py_error + CodeFeedback list" where
  "analyze_files self [] feedback = Inr feedback"
| "analyze_files self ((file_path, changes) # rest) feedback =
     (if is_code_file file_path then
        (case analyze_file_changes self file_path changes of
           Inl e \<Rightarrow> Inl e
         | Inr file_feedback \<Rightarrow> analyze_files self rest (feedback @ file_feedback))
      else analyze_files self rest feedback)"

definition analyze_changes :: "CodeAnalyzer \<Rightarrow> string \<Rightarrow> py_error + int \<times> CodeFeedback list" where
  "analyze_changes self diff_content =
     (case parse_diff diff_content of
        Inl e \<Rightarrow> Inl e
      | Inr diff_sections \<Rightarrow>
          (case analyze_files self diff_sections [] of
             Inl e \<Rightarrow> Inl e
           | Inr feedback \<Rightarrow> Inr (calculate_score feedback, feedback)))"

section \<open>Properties of the diff parser\<close>

lemma split_from_nonempty: "split_from sep acc s \<noteq> []"
  by (induction s arbitrary: acc) auto

lemma extract_filename_total: "extract_filename l = Inr (section_path l)"
  by (simp add: extract_filename_def section_path_def index_last_def str_split_def
      split_from_nonempty)

lemma added_lines_marker: "is_marker l \<Longrightarrow> added_lines (l # ls) = []"
  by (simp add: added_lines_def)

lemma added_lines_added:
  "\<not> is_marker l \<Longrightarrow> is_added l \<Longrightarrow> added_lines (l # ls) = drop 1 l # added_lines ls"
  by (simp add: added_lines_def)

lemma added_lines_other:
  "\<not> is_marker l \<Longrightarrow> \<not> is_added l \<Longrightarrow> added_lines (l # ls) = added_lines ls"
  by (simp add: added_lines_def)

lemma store_all_Nil: "store_all files [] = files"
  by (simp add: store_all_def)

lemma store_all_Cons: "store_all files ((p, c) # secs) = store_all (store files (Some p) c) secs"
  by (simp add: store_all_def)

lemma parse_lines_sections:
  "parse_lines files cur ch ls
     = Inr (store_all (store files cur (ch @ added_lines ls)) (sections ls))"
proof (induction ls arbitrary: files cur ch)
  case Nil
  show ?case by (simp add: added_lines_def store_all_Nil)
next
  case (Cons l ls)
  show ?case
  proof (cases "is_marker l")
    case True
    then show ?thesis
      by (simp add: Cons.IH extract_filename_total added_lines_marker store_all_Cons
          is_marker_def [symmetric])
  next
    case False
    show ?thesis
    proof (cases "is_added l")
      case True
      with False show ?thesis
        using Cons.IH [of files cur "ch @ [drop 1 l]"]
        by (simp add: added_lines_added is_marker_def [symmetric] is_added_def [symmetric])
    next
      case nadd: False
      with False show ?thesis
        using Cons.IH [of files cur ch]
        by (simp add: added_lines_other is_marker_def [symmetric] is_added_def [symmetric])
    qed
  qed
qed

lemma parse_diff_sections:
  "parse_diff text = Inr (store_all [] (sections (diff_lines text)))"
  by (simp add: parse_diff_def parse_lines_sections store_def diff_lines_def)

lemma length_sections: "length (sections ls) = length (filter is_marker ls)"
  by (induction ls) simp_all

lemma dict_set_fresh: "k \<notin> fst ` set d \<Longrightarrow> dict_set d k v = d @ [(k, v)]"
  by (induction d) auto

lemma keys_dict_set: "set (map fst (dict_set d k v)) = insert k (set (map fst d))"
proof (induction d)
  case Nil
  show ?case by simp
next
  case (Cons e d)
  obtain k' v' where e: "e = (k', v')" by (cases e)
  show ?case using Cons.IH by (cases "k' = k") (auto simp: e)
qed

lemma distinct_dict_set: "distinct (map fst d) \<Longrightarrow> distinct (map fst (dict_set d k v))"
proof (induction d)
  case Nil
  show ?case by simp
next
  case (Cons e d)
  obtain k' v' where e: "e = (k', v')" by (cases e)
  show ?case
  proof (cases "k' = k")
    case True
    with Cons.prems e show ?thesis by simp
  next
    case False
    have "k' \<notin> set (map fst (dict_set d k v))"
      using Cons.prems e False by (simp only: keys_dict_set) auto
    with Cons e False show ?thesis by simp
  qed
qed

lemma map_of_dict_set: "map_of (dict_set d k v) = (map_of d)(k \<mapsto> v)"
  by (induction d) (auto simp: fun_eq_iff)

lemma keys_store:
  "set (map fst (store files (Some p) c)) = set (map fst files) \<union> ({p} - {[]})"
  by (auto simp: store_def keys_dict_set simp del: set_map)

lemma distinct_store: "distinct (map fst files) \<Longrightarrow> distinct (map fst (store files cur c))"
  by (simp add: store_def distinct_dict_set split: option.splits)

lemma keys_store_all:
  "set (map fst (store_all files secs)) = set (map fst files) \<union> (set (map fst secs) - {[]})"
proof (induction secs arbitrary: files)
  case Nil
  show ?case by (simp add: store_all_Nil)
next
  case (Cons s secs)
  obtain p c where s: "s = (p, c)" by (cases s)
  show ?case unfolding s store_all_Cons Cons.IH keys_store by auto
qed

lemma distinct_store_all:
  "distinct (map fst files) \<Longrightarrow> distinct (map fst (store_all files secs))"
proof (induction secs arbitrary: files)
  case Nil
  then show ?case by (simp add: store_all_Nil)
next
  case (Cons s secs)
  obtain p c where s: "s = (p, c)" by (cases s)
  show ?case unfolding s store_all_Cons by (rule Cons.IH) (rule distinct_store, rule Cons.prems)
qed

lemma store_all_fresh:
  "distinct (map fst (files @ secs)) \<Longrightarrow> [] \<notin> set (map fst secs)
     \<Longrightarrow> store_all files secs = files @ secs"
proof (induction secs arbitrary: files)
  case Nil
  show ?case by (simp add: store_all_Nil)
next
  case (Cons s secs)
  obtain p c where s: "s = (p, c)" by (cases s)
  have fresh: "p \<notin> fst ` set files" using Cons.prems(1) s by auto
  have ne: "p \<noteq> []" using Cons.prems(2) s by auto
  have st: "store files (Some p) c = files @ [(p, c)]"
    using fresh ne by (simp add: store_def dict_set_fresh)
  have "store_all (files @ [(p, c)]) secs = (files @ [(p, c)]) @ secs"
  proof (rule Cons.IH)
    show "distinct (map fst ((files @ [(p, c)]) @ secs))" using Cons.prems(1) s by simp
    show "[] \<notin> set (map fst secs)" using Cons.prems(2) by simp
  qed
  then show ?case by (simp add: s store_all_Cons st)
qed

lemma map_of_store_all:
  "p \<noteq> [] \<Longrightarrow> map_of (store_all files secs) p
     = (case map_of (rev secs) p of Some c \<Rightarrow> Some c | None \<Rightarrow> map_of files p)"
proof (induction secs arbitrary: files)
  case Nil
  show ?case by (simp add: store_all_Nil)
next
  case (Cons s secs)
  obtain q c where s: "s = (q, c)" by (cases s)
  have st: "map_of (store files (Some q) c) p = (if q = p then Some c else map_of files p)"
    using Cons.prems by (auto simp: store_def map_of_dict_set)
  show ?case
    unfolding s store_all_Cons Cons.IH [OF Cons.prems] st
    by (auto simp: map_add_def split: option.splits)
qed

lemma filter_key_unique:
  "distinct (map fst fs) \<Longrightarrow> map_of fs p = Some c \<Longrightarrow> filter (\<lambda>e. fst e = p) fs = [(p, c)]"
proof (induction fs)
  case Nil
  then show ?case by simp
next
  case (Cons e fs)
  obtain k v where e: "e = (k, v)" by (cases e)
  show ?case
  proof (cases "k = p")
    case True
    then have "p \<notin> fst ` set fs" using Cons.prems(1) e by auto
    then have "filter (\<lambda>e. fst e = p) fs = []" by (auto simp: filter_empty_conv)
    with True e Cons.prems(2) show ?thesis by simp
  next
    case False
    with Cons e show ?thesis by simp
  qed
qed

lemma keys_sections: "map fst (sections ls) = map section_path (filter is_marker ls)"
  by (induction ls) simp_all

text \<open>
  C2. The number of entries is not always the number of marker lines: two
  sections with the same path share one entry, and a section whose path comes
  out empty is not stored at all.
\<close>

theorem parse_diff_entry_count_counterexample:
  "length (filter is_marker (diff_lines (join_lines
       [''diff --git a/x.py b/x.py'', ''+a'', ''diff --git a/x.py b/x.py'', ''+b'']))) = 2
   \<and> parse_diff (join_lines
       [''diff --git a/x.py b/x.py'', ''+a'', ''diff --git a/x.py b/x.py'', ''+b''])
     = Inr [(''x.py'', [''b''])]
   \<and> length (filter is_marker (diff_lines (join_lines [''diff --git a/ b/'', ''+a'']))) = 1
   \<and> parse_diff (join_lines [''diff --git a/ b/'', ''+a'']) = Inr []"
  by code_simp

text \<open>
  C2, amended. Parsing a diff text with N marker lines yields at most N entries,
  and none when there is no marker line. When the paths extracted from the
  marker lines are pairwise distinct and not empty, the result is exactly the
  sequence of the N file sections, each with its added lines, also when that
  sequence of added lines is empty.
\<close>

theorem parse_diff_entry_count:
  "\<exists>fs. parse_diff text = Inr fs
     \<and> length fs \<le> length (filter is_marker (diff_lines text))
     \<and> (filter is_marker (diff_lines text) = [] \<longrightarrow> fs = [])
     \<and> (distinct (map section_path (filter is_marker (diff_lines text)))
          \<and> [] \<notin> set (map section_path (filter is_marker (diff_lines text)))
        \<longrightarrow> fs = sections (diff_lines text)
            \<and> length fs = length (filter is_marker (diff_lines text)))"
proof -
  let ?secs = "sections (diff_lines text)"
  let ?fs = "store_all [] ?secs"
  have d: "distinct (map fst ?fs)" by (rule distinct_store_all) simp
  have "length ?fs = card (set (map fst ?fs))"
    using d by (simp only: distinct_card length_map)
  also have "\<dots> = card (set (map fst ?secs) - {[]})" by (simp only: keys_store_all) simp
  also have "\<dots> \<le> card (set (map fst ?secs))" by (rule card_mono) auto
  also have "\<dots> \<le> length (map fst ?secs)" by (rule card_length)
  finally have le: "length ?fs \<le> length (filter is_marker (diff_lines text))"
    by (simp add: length_sections)
  have eq: "?fs = ?secs \<and> length ?fs = length (filter is_marker (diff_lines text))"
    if h: "distinct (map section_path (filter is_marker (diff_lines text)))
          \<and> [] \<notin> set (map section_path (filter is_marker (diff_lines text)))"
  proof -
    have "store_all [] ?secs = [] @ ?secs"
      by (rule store_all_fresh) (use h in \<open>simp_all add: keys_sections\<close>)
    then show ?thesis by (simp add: length_sections)
  qed
  have none: "filter is_marker (diff_lines text) = [] \<longrightarrow> ?fs = []"
  proof
    assume "filter is_marker (diff_lines text) = []"
    then have "length (filter is_marker (diff_lines text)) = 0" by (simp only: list.size)
    with le have "length ?fs = 0" by linarith
    then show "?fs = []" by (simp only: length_0_conv)
  qed
  from le eq none show ?thesis by (simp only: parse_diff_sections) blast
qed

theorem parse_diff_entry_count_witness:
  "distinct (map section_path (filter is_marker (diff_lines (join_lines
       [''diff --git a/x.py b/x.py'', ''+a'', ''diff --git a/y.py b/y.py'', ''-gone'']))))
   \<and> [] \<notin> set (map section_path (filter is_marker (diff_lines (join_lines
       [''diff --git a/x.py b/x.py'', ''+a'', ''diff --git a/y.py b/y.py'', ''-gone'']))))
   \<and> parse_diff (join_lines
       [''diff --git a/x.py b/x.py'', ''+a'', ''diff --git a/y.py b/y.py'', ''-gone''])
     = Inr [(''x.py'', [''a'']), (''y.py'', [])]"
proof -
  let ?t = "join_lines
    [''diff --git a/x.py b/x.py'', ''+a'', ''diff --git a/y.py b/y.py'', ''-gone'']"
  have m: "map section_path (filter is_marker (diff_lines ?t)) = [''x.py'', ''y.py'']"
    by code_simp
  have s: "sections (diff_lines ?t) = [(''x.py'', [''a'']), (''y.py'', [])]"
    by code_simp
  from parse_diff_entry_count [of ?t] show ?thesis
    by (simp only: m s) simp
qed

lemma parse_diff_total: "\<exists>fs. parse_diff text = Inr fs"
  by (simp only: parse_diff_sections) blast

text \<open>
  C4. The code removes the first two characters of the last piece of a marker
  line without looking at them; its comment calls this removing the \<^verbatim>\<open>b/\<close>
  prefix. For the marker line that \<^verbatim>\<open>git diff --no-prefix\<close> writes for the file
  \<^verbatim>\<open>foo.py\<close> the piece has no such prefix, and it is not passed through: the
  section is stored under \<^verbatim>\<open>o.py\<close>. With the prefix present the path comes out
  whole. Parsing itself does not raise, on this text or on any other
  (\<open>parse_diff_total\<close>).
\<close>

theorem parse_diff_no_prefix:
  "extract_filename ''diff --git foo.py foo.py'' = Inr ''o.py''
   \<and> parse_diff (join_lines [''diff --git foo.py foo.py'', ''+x = 1''])
       = Inr [(''o.py'', [''x = 1''])]
   \<and> parse_diff (join_lines [''diff --git foo.py foo.py'', ''+x = 1''])
       \<noteq> Inr [(''foo.py'', [''x = 1''])]
   \<and> parse_diff (join_lines [''diff --git a/foo.py b/foo.py'', ''+x = 1''])
       = Inr [(''foo.py'', [''x = 1''])]"
  by code_simp

text \<open>
  C9. Two sections whose marker lines end in \<^verbatim>\<open>b/\<close> extract to the same path,
  the empty one; the result has no entry at all then, so none that holds the
  later section's lines.
\<close>

theorem parse_diff_later_section_wins_counterexample:
  "extract_filename ''diff --git a/ b/'' = Inr []
   \<and> sections (diff_lines (join_lines [''diff --git a/ b/'', ''+a'', ''diff --git a/ b/'', ''+b'']))
     = [([], [''a'']), ([], [''b''])]
   \<and> parse_diff (join_lines [''diff --git a/ b/'', ''+a'', ''diff --git a/ b/'', ''+b''])
     = Inr []"
  by code_simp

text \<open>
  C9, amended. If two sections of one diff text extract to the same path, and
  that path is not empty, the result has a single entry for the path, holding
  the added lines of the last section with that path only; the result then has
  fewer entries than the text has marker lines.
\<close>

theorem parse_diff_later_section_wins:
  assumes secs: "sections (diff_lines text) = pre @ (p, c1) # mid @ (p, c2) # post"
    and ne: "p \<noteq> []" and last: "p \<notin> fst ` set post"
  shows "\<exists>fs. parse_diff text = Inr fs \<and> filter (\<lambda>e. fst e = p) fs = [(p, c2)]
           \<and> length fs < length (filter is_marker (diff_lines text))"
proof -
  let ?secs = "sections (diff_lines text)"
  let ?fs = "store_all [] ?secs"
  have d: "distinct (map fst ?fs)" by (rule distinct_store_all) simp
  have "map_of (rev post) p = None" using last by (simp add: map_of_eq_None_iff)
  then have "map_of (rev ?secs) p = Some c2"
    by (simp add: secs map_add_def)
  then have "map_of ?fs p = Some c2" using ne by (simp add: map_of_store_all)
  with d have one: "filter (\<lambda>e. fst e = p) ?fs = [(p, c2)]" by (rule filter_key_unique)
  have nd: "\<not> distinct (map fst ?secs)" by (simp add: secs)
  have "length ?fs = card (set (map fst ?fs))"
    using d by (simp only: distinct_card length_map)
  also have "\<dots> = card (set (map fst ?secs) - {[]})" by (simp only: keys_store_all) simp
  also have "\<dots> \<le> card (set (map fst ?secs))" by (rule card_mono) auto
  also have "\<dots> < length (map fst ?secs)"
    using nd card_distinct [of "map fst ?secs"] card_length [of "map fst ?secs"]
    by (cases "card (set (map fst ?secs)) = length (map fst ?secs)") auto
  finally have "length ?fs < length (filter is_marker (diff_lines text))"
    by (simp add: length_sections)
  with one show ?thesis by (simp only: parse_diff_sections) blast
qed

theorem parse_diff_later_section_wins_witness:
  "sections (diff_lines (join_lines
       [''diff --git a/x.py b/x.py'', ''+a'', ''diff --git a/x.py b/x.py'', ''+b'']))
     = [] @ (''x.py'', [''a'']) # [] @ (''x.py'', [''b'']) # []
   \<and> ''x.py'' \<noteq> []
   \<and> ''x.py'' \<notin> fst ` set ([] :: (string \<times> string list) list)
   \<and> (\<exists>fs. parse_diff (join_lines
         [''diff --git a/x.py b/x.py'', ''+a'', ''diff --git a/x.py b/x.py'', ''+b'']) = Inr fs
       \<and> filter (\<lambda>e. fst e = ''x.py'') fs = [(''x.py'', [''b''])]
       \<and> length fs < length (filter is_marker (diff_lines (join_lines
           [''diff --git a/x.py b/x.py'', ''+a'', ''diff --git a/x.py b/x.py'', ''+b'']))))"
proof -
  let ?t = "join_lines
    [''diff --git a/x.py b/x.py'', ''+a'', ''diff --git a/x.py b/x.py'', ''+b'']"
  have s: "sections (diff_lines ?t) = [] @ (''x.py'', [''a'']) # [] @ (''x.py'', [''b'']) # []"
    by code_simp
  have n: "''x.py'' \<noteq> []" by simp
  have l: "''x.py'' \<notin> fst ` set ([] :: (string \<times> string list) list)" by simp
  from parse_diff_later_section_wins [OF s n l] s n l show ?thesis by blast
qed

section \<open>Properties of the rule engine\<close>

subsection \<open>Case-insensitive matching\<close>

lemma ord_lower:
  "ord (lower c) = (if (65 \<le> ord c \<and> ord c \<le> 90) \<or> (192 \<le> ord c \<and> ord c \<le> 222 \<and> ord c \<noteq> 215)
                    then ord c + 32 else ord c)"
  by (simp add: lower_def ord_def Let_def)

lemma lower_idem: "lower (lower c) = lower c"
proof -
  have "ord (lower (lower c)) = ord (lower c)"
    by (simp only: ord_lower [of "lower c"]) (simp add: ord_lower)
  then show ?thesis by (simp add: ord_def)
qed

lemma isspace_lower: "isspace (lower c) = isspace c"
  by (simp add: isspace_def Let_def ord_lower)

lemma isword_lower: "isword (lower c) = isword c"
  by (simp add: isword_def Let_def ord_lower)

lemma lower_newline: "(lower c = newline) = (c = newline)"
proof -
  have "(ord (lower c) = ord newline) = (ord c = ord newline)"
    by (simp add: ord_lower) (simp add: ord_def newline_def)
  then show ?thesis by (simp add: ord_def)
qed

lemma item_matches_lower: "item_matches True i (lower d) = item_matches True i d"
  by (cases i) (simp_all add: lower_idem isspace_lower isword_lower)

lemma atom_matches_lower: "atom_matches True a (lower d) = atom_matches True a d"
  by (cases a) (simp_all add: item_matches_lower lower_newline list_ex_iff)

lemma eol_lower: "(map lower s = [] \<or> map lower s = [newline]) = (s = [] \<or> s = [newline])"
  by (cases s) (auto simp: lower_newline)

lemma match_pieces_lower: "match_pieces True ps (map lower s) = match_pieces True ps s"
proof (induction "True" ps s rule: match_pieces.induct)
  case (2 ps s)
  then show ?case by (simp only: match_pieces.simps eol_lower)
qed (simp_all add: atom_matches_lower)

lemma suffixes_of_map: "suffixes_of (map f s) = map (map f) (suffixes_of s)"
  by (induction s) simp_all

lemma re_search_lower: "re_search p (map lower s) True = re_search p s True"
  by (simp add: re_search_def suffixes_of_map list_ex_iff match_pieces_lower
      split: re_outcome.splits)

lemma check_patterns_lower: "check_patterns pats (map lower s) acc = check_patterns pats s acc"
  by (induction pats arbitrary: acc) (auto simp: re_search_lower split: sum.splits)

text \<open>
  C8. Quality rules are matched without regard to case, as security rules are:
  two lines that differ only in the case of their letters trigger the same
  quality rules and the same security rules, whatever the rule tables; so
  \<^verbatim>\<open>PRINT(x)\<close> triggers the print rule and \<^verbatim>\<open>Todo\<close> the TODO/FIXME rule.
\<close>

theorem pattern_matching_ignores_case:
  "(map lower l1 = map lower l2 \<longrightarrow>
      check_quality_patterns self l1 = check_quality_patterns self l2
      \<and> check_security_patterns self l1 = check_security_patterns self l2)
   \<and> check_quality_patterns init ''PRINT(x)''
       = Inr [''Consider using logging instead of print statements'']
   \<and> check_quality_patterns init ''# Todo: later''
       = Inr [''TODO/FIXME comment found - consider addressing'']"
proof -
  have a: "check_patterns pats l1 [] = check_patterns pats l2 []"
    if "map lower l1 = map lower l2" for pats
  proof -
    have "check_patterns pats l1 [] = check_patterns pats (map lower l1) []"
      by (simp only: check_patterns_lower)
    also have "\<dots> = check_patterns pats (map lower l2) []" by (simp only: that)
    also have "\<dots> = check_patterns pats l2 []" by (simp only: check_patterns_lower)
    finally show ?thesis .
  qed
  have b: "check_quality_patterns init ''PRINT(x)''
       = Inr [''Consider using logging instead of print statements'']" by code_simp
  have c: "check_quality_patterns init ''# Todo: later''
       = Inr [''TODO/FIXME comment found - consider addressing'']" by code_simp
  from a b c show ?thesis
    by (simp add: check_quality_patterns_def check_security_patterns_def)
qed

theorem pattern_matching_ignores_case_witness:
  "map lower ''PRINT(x)'' = map lower ''print(x)''
   \<and> check_quality_patterns init ''PRINT(x)'' = check_quality_patterns init ''print(x)''
   \<and> check_security_patterns init ''PRINT(x)'' = check_security_patterns init ''print(x)''"
proof -
  have h: "map lower ''PRINT(x)'' = map lower ''print(x)''" by code_simp
  with pattern_matching_ignores_case [of "''PRINT(x)''" "''print(x)''" init] show ?thesis
    by blast
qed

subsection \<open>Results and exceptions of the analysis of a file\<close>

lemma check_patterns_Inr:
  "check_patterns pats l acc = Inr res \<Longrightarrow> res = acc @ matching pats l"
proof (induction pats arbitrary: acc)
  case Nil
  then show ?case by (simp add: matching_def)
next
  case (Cons pm pats)
  obtain p m where pm: "pm = (p, m)" by (cases pm)
  from Cons.prems obtain b where b: "re_search p l True = Inr b"
    and rest: "check_patterns pats l (if b then acc @ [m] else acc) = Inr res"
    by (auto simp: pm split: sum.splits)
  from Cons.IH [OF rest] b show ?case by (cases b) (simp_all add: pm matching_def)
qed

lemma re_search_compiles: "compiles p \<Longrightarrow> \<exists>b. re_search p l ic = Inr b"
  by (simp add: compiles_def re_search_def split: re_outcome.splits)

lemma check_patterns_compiles:
  "list_all (\<lambda>(p, m). compiles p) pats \<Longrightarrow> \<exists>res. check_patterns pats l acc = Inr res"
proof (induction pats arbitrary: acc)
  case Nil
  show ?case by simp
next
  case (Cons pm pats)
  obtain p m where pm: "pm = (p, m)" by (cases pm)
  from Cons.prems have "compiles p" by (simp add: pm)
  then obtain b where b: "re_search p l True = Inr b" using re_search_compiles by blast
  from Cons.prems have "list_all (\<lambda>(p, m). compiles p) pats" by simp
  from Cons.IH [OF this] b show ?case by (simp add: pm)
qed

lemma init_compiles:
  "list_all (\<lambda>(p, m). compiles p) (security_patterns init)"
  "list_all (\<lambda>(p, m). compiles p) (quality_patterns init)"
  by code_simp+

lemma def_pattern_compiles:
  "compiles (''def'' @ backslash # ''s+'' @ backslash # ''w+'' @ backslash # ''([^)]*''
              @ backslash # ''):'')"
  by code_simp

lemma analyze_python_line_total: "\<exists>py. analyze_python_line l = Inr py"
proof -
  from re_search_compiles obtain b where
    "re_match (''def'' @ backslash # ''s+'' @ backslash # ''w+'' @ backslash # ''([^)]*''
              @ backslash # ''):'') l False = Inr b"
    using def_pattern_compiles by (auto simp: compiles_def re_match_def split: re_outcome.splits)
  then show ?thesis by (simp add: analyze_python_line_def)
qed

lemma analyze_line_Inr:
  assumes "analyze_line self fp k l = Inr out"
  shows "\<exists>ext. (if endswith fp ''.py'' then analyze_python_line l else Inr []) = Inr ext
           \<and> out = map (\<lambda>issue. \<lparr>file = fp, line = k, type = ERROR, message = issue,
                                   severity = 5, suggestion = None\<rparr>)
                        (matching (security_patterns self) l)
                 @ map (\<lambda>issue. \<lparr>file = fp, line = k, type = WARNING, message = issue,
                                     severity = 3, suggestion = None\<rparr>)
                        (matching (quality_patterns self) l)
                 @ map (\<lambda>(t, m, s). \<lparr>file = fp, line = k, type = t, message = m,
                                         severity = s, suggestion = None\<rparr>) ext"
proof -
  from assms obtain sec qual ext where
    s: "check_security_patterns self l = Inr sec" and
    q: "check_quality_patterns self l = Inr qual" and
    e: "(if endswith fp ''.py'' then analyze_python_line l else Inr []) = Inr ext" and
    out: "out = map (\<lambda>issue. \<lparr>file = fp, line = k, type = ERROR, message = issue,
                                   severity = 5, suggestion = None\<rparr>) sec
                 @ map (\<lambda>issue. \<lparr>file = fp, line = k, type = WARNING, message = issue,
                                     severity = 3, suggestion = None\<rparr>) qual
                 @ map (\<lambda>(t, m, s). \<lparr>file = fp, line = k, type = t, message = m,
                                         severity = s, suggestion = None\<rparr>) ext"
    unfolding analyze_line_def by (auto split: sum.splits)
  from s have "sec = matching (security_patterns self) l"
    using check_patterns_Inr [of "security_patterns self" l "[]" sec]
    by (simp add: check_security_patterns_def)
  moreover from q have "qual = matching (quality_patterns self) l"
    using check_patterns_Inr [of "quality_patterns self" l "[]" qual]
    by (simp add: check_quality_patterns_def)
  ultimately show ?thesis using e out by blast
qed

lemma analyze_line_line: "analyze_line self fp k l = Inr out \<Longrightarrow> f \<in> set out \<Longrightarrow> line f = k"
  by (drule analyze_line_Inr) auto

lemma analyze_lines_Inr:
  "analyze_lines self fp k ls acc = Inr fb
     \<Longrightarrow> \<exists>rest. fb = acc @ rest \<and> (\<forall>f\<in>set rest. k \<le> line f)"
proof (induction ls arbitrary: k acc)
  case Nil
  then show ?case by simp
next
  case (Cons l ls)
  from Cons.prems obtain out where
    o: "analyze_line self fp k l = Inr out" and
    r: "analyze_lines self fp (k + 1) ls (acc @ out) = Inr fb"
    by (auto split: sum.splits)
  from Cons.IH [OF r] obtain rest where
    fb: "fb = (acc @ out) @ rest" and ge: "\<forall>f\<in>set rest. k + 1 \<le> line f" by blast
  have "\<forall>f\<in>set (out @ rest). k \<le> line f"
    using analyze_line_line [OF o] ge by fastforce
  with fb show ?case by simp
qed

lemma analyze_lines_filter:
  "analyze_lines self fp k ls acc = Inr fb \<Longrightarrow> \<forall>f\<in>set acc. line f < k \<Longrightarrow> n < length ls
     \<Longrightarrow> analyze_line self fp (k + int n) (ls ! n) = Inr (filter (\<lambda>f. line f = k + int n) fb)"
proof (induction ls arbitrary: k acc n)
  case Nil
  then show ?case by simp
next
  case (Cons l ls)
  from Cons.prems(1) obtain out where
    o: "analyze_line self fp k l = Inr out" and
    r: "analyze_lines self fp (k + 1) ls (acc @ out) = Inr fb"
    by (auto split: sum.splits)
  have ol: "\<forall>f\<in>set out. line f = k" using analyze_line_line [OF o] by blast
  show ?case
  proof (cases n)
    case 0
    from analyze_lines_Inr [OF r] obtain rest where
      fb: "fb = (acc @ out) @ rest" and ge: "\<forall>f\<in>set rest. k + 1 \<le> line f" by blast
    have a: "filter (\<lambda>f. line f = k) acc = []" using Cons.prems(2) by (auto simp: filter_empty_conv)
    have b: "filter (\<lambda>f. line f = k) out = out" using ol by (simp add: filter_id_conv)
    have c: "filter (\<lambda>f. line f = k) rest = []" using ge by (fastforce simp: filter_empty_conv)
    from a b c have "filter (\<lambda>f. line f = k) fb = out" by (simp add: fb)
    with o 0 show ?thesis by simp
  next
    case (Suc m)
    have lt: "\<forall>f\<in>set (acc @ out). line f < k + 1" using Cons.prems(2) ol by fastforce
    from Cons.prems(3) Suc have m: "m < length ls" by simp
    have e: "k + 1 + int m = k + int n" using Suc by simp
    have "(l # ls) ! n = ls ! m" using Suc by simp
    with Cons.IH [OF r lt m] show ?thesis by (simp only: e)
  qed
qed

lemma analyze_line_init_total: "\<exists>out. analyze_line init fp k l = Inr out"
proof -
  obtain sec where s: "check_security_patterns init l = Inr sec"
    using check_patterns_compiles [OF init_compiles(1)]
    by (auto simp: check_security_patterns_def)
  obtain qual where q: "check_quality_patterns init l = Inr qual"
    using check_patterns_compiles [OF init_compiles(2)]
    by (auto simp: check_quality_patterns_def)
  obtain ext where e: "(if endswith fp ''.py'' then analyze_python_line l else Inr []) = Inr ext"
    using analyze_python_line_total [of l] by (cases "endswith fp ''.py''") auto
  show ?thesis by (simp add: analyze_line_def s q e)
qed

lemma analyze_lines_init_total: "\<exists>fb. analyze_lines init fp k ls acc = Inr fb"
proof (induction ls arbitrary: k acc)
  case Nil
  show ?case by simp
next
  case (Cons l ls)
  obtain out where o: "analyze_line init fp k l = Inr out"
    using analyze_line_init_total by blast
  from Cons.IH [of "k + 1" "acc @ out"] o show ?case by simp
qed

lemma analyze_files_init_total: "\<exists>fb. analyze_files init secs acc = Inr fb"
proof (induction secs arbitrary: acc)
  case Nil
  show ?case by simp
next
  case (Cons s secs)
  obtain fp changes where s: "s = (fp, changes)" by (cases s)
  obtain fb where fb: "analyze_file_changes init fp changes = Inr fb"
    using analyze_lines_init_total [of fp 1 changes "[]"] by (auto simp: analyze_file_changes_def)
  from Cons.IH [of "acc @ fb"] Cons.IH [of acc] fb show ?case by (simp add: s)
qed

lemma check_patterns_raises:
  "(p, m) \<in> set pats \<Longrightarrow> re_search p l True = Inl e \<Longrightarrow> \<exists>e'. check_patterns pats l acc = Inl e'"
proof (induction pats arbitrary: acc)
  case Nil
  then show ?case by simp
next
  case (Cons qm pats)
  obtain q m' where qm: "qm = (q, m')" by (cases qm)
  show ?case
  proof (cases "re_search q l True")
    case (Inl e'')
    then show ?thesis by (simp add: qm)
  next
    case (Inr b)
    with Cons.prems qm have "(p, m) \<in> set pats" by auto
    from Cons.IH [OF this Cons.prems(2)] Inr show ?thesis by (simp add: qm)
  qed
qed

lemma analyze_line_raises:
  assumes "(p, m) \<in> set (security_patterns self) \<union> set (quality_patterns self)"
    and "re_search p l True = Inl e"
  shows "\<exists>e'. analyze_line self fp k l = Inl e'"
proof (cases "(p, m) \<in> set (security_patterns self)")
  case True
  from check_patterns_raises [OF True assms(2)] obtain e' where
    "check_security_patterns self l = Inl e'" by (auto simp: check_security_patterns_def)
  then show ?thesis by (simp add: analyze_line_def)
next
  case False
  with assms(1) have "(p, m) \<in> set (quality_patterns self)" by simp
  from check_patterns_raises [OF this assms(2)] obtain e' where
    "check_quality_patterns self l = Inl e'" by (auto simp: check_quality_patterns_def)
  then show ?thesis by (simp add: analyze_line_def split: sum.splits)
qed

lemma analyze_lines_raises:
  "l \<in> set ls \<Longrightarrow> analyze_line self fp k' l = Inl e
     \<Longrightarrow> (\<And>k k' e. analyze_line self fp k l = Inl e \<Longrightarrow> \<exists>e'. analyze_line self fp k' l = Inl e')
     \<Longrightarrow> \<exists>e'. analyze_lines self fp k ls acc = Inl e'"
proof (induction ls arbitrary: k acc)
  case Nil
  then show ?case by simp
next
  case (Cons x ls)
  show ?case
  proof (cases "analyze_line self fp k x")
    case (Inl e'')
    then show ?thesis by simp
  next
    case (Inr out)
    have "x \<noteq> l"
    proof
      assume "x = l"
      with Cons.prems(2,3) obtain e' where "analyze_line self fp k x = Inl e'" by blast
      with Inr show False by simp
    qed
    with Cons.prems(1) have "l \<in> set ls" by simp
    from Cons.IH [OF this Cons.prems(2) Cons.prems(3)] Inr show ?thesis by simp
  qed
qed

text \<open>
  C3. A rule whose evaluation raises is not skipped: with a malformed pattern
  put before the built-in security rules, the line \<^verbatim>\<open>eval(x)\<close> gets no finding
  at all, the exception leaves the rule loop and the analysis of the file.
\<close>

theorem rule_failure_aborts_counterexample:
  "check_security_patterns init ''eval(x)''
     = Inr [''Avoid using eval() as it can execute arbitrary code'']
   \<and> re_search ''['' ''eval(x)'' True = Inl ReError
   \<and> check_security_patterns
        (init\<lparr>security_patterns := (''['', ''bad rule'') # security_patterns init\<rparr>) ''eval(x)''
     = Inl ReError
   \<and> analyze_file_changes
        (init\<lparr>security_patterns := (''['', ''bad rule'') # security_patterns init\<rparr>)
        ''a.py'' [''eval(x)'']
     = Inl ReError"
  by code_simp

text \<open>
  C3, amended. With the rule tables the analyzer is built with, the analysis of
  a file and the whole pipeline never raise, for any file path, lines and diff
  text: every built-in pattern is well-formed. Rule evaluation has no isolation
  per rule: when the evaluation of a security or quality rule raises on a line,
  the analysis of that line raises, and so does the analysis of a file that has
  the line among its added lines.
\<close>

theorem rule_evaluation_init_never_raises:
  "(\<exists>fb. analyze_file_changes init file_path changes = Inr fb)
   \<and> (\<exists>r. analyze_changes init diff_content = Inr r)
   \<and> ((p, m) \<in> set (security_patterns self) \<union> set (quality_patterns self)
        \<and> re_search p l True = Inl e \<and> l \<in> set ls
      \<longrightarrow> (\<exists>e'. analyze_line self fp k l = Inl e')
          \<and> (\<exists>e'. analyze_file_changes self fp ls = Inl e'))"
proof -
  have a: "\<exists>fb. analyze_file_changes init file_path changes = Inr fb"
    using analyze_lines_init_total by (simp add: analyze_file_changes_def)
  have b: "\<exists>r. analyze_changes init diff_content = Inr r"
  proof -
    obtain fb where "analyze_files init (store_all [] (sections (diff_lines diff_content))) [] = Inr fb"
      using analyze_files_init_total by blast
    then show ?thesis by (simp add: analyze_changes_def parse_diff_sections)
  qed
  have c: "(\<exists>e'. analyze_line self fp k l = Inl e') \<and> (\<exists>e'. analyze_file_changes self fp ls = Inl e')"
    if h: "(p, m) \<in> set (security_patterns self) \<union> set (quality_patterns self)
        \<and> re_search p l True = Inl e \<and> l \<in> set ls"
  proof -
    from h have pm: "(p, m) \<in> set (security_patterns self) \<union> set (quality_patterns self)"
      and r: "re_search p l True = Inl e" and l: "l \<in> set ls" by blast+
    have any: "\<exists>e'. analyze_line self fp j l = Inl e'" for j
      using analyze_line_raises [OF pm r] .
    from any [of 1] obtain e1 where e1: "analyze_line self fp 1 l = Inl e1" by blast
    have "\<exists>e'. analyze_lines self fp 1 ls [] = Inl e'"
      by (rule analyze_lines_raises [OF l e1]) (rule any)
    with any [of k] show ?thesis by (simp add: analyze_file_changes_def)
  qed
  from a b c show ?thesis by blast
qed

theorem rule_evaluation_init_never_raises_witness:
  "(''['', ''bad rule'')
      \<in> set (security_patterns (init\<lparr>security_patterns := [(''['', ''bad rule'')]\<rparr>))
        \<union> set (quality_patterns (init\<lparr>security_patterns := [(''['', ''bad rule'')]\<rparr>))
   \<and> re_search ''['' ''x = 1'' True = Inl ReError
   \<and> ''x = 1'' \<in> set [''x = 1'']
   \<and> (\<exists>e'. analyze_file_changes (init\<lparr>security_patterns := [(''['', ''bad rule'')]\<rparr>)
               ''a.py'' [''x = 1''] = Inl e')"
proof -
  let ?self = "init\<lparr>security_patterns := [(''['', ''bad rule'')]\<rparr>"
  have h1: "(''['', ''bad rule'') \<in> set (security_patterns ?self) \<union> set (quality_patterns ?self)"
    by simp
  have h2: "re_search ''['' ''x = 1'' True = Inl ReError" by code_simp
  have h3: "''x = 1'' \<in> set [''x = 1'']" by simp
  from rule_evaluation_init_never_raises
    [of _ _ _ "''[''" "''bad rule''" ?self "''x = 1''" ReError "[''x = 1'']" "''a.py''" 1]
    h1 h2 h3
  show ?thesis by blast
qed

subsection \<open>The order of the findings of a line\<close>

lemma analyze_python_line_shape:
  "analyze_python_line l = Inr ext \<Longrightarrow>
     \<exists>b1 b2. ext = (if b1 then [(SUGGESTION, ''Consider adding type hints for better code clarity'', 2)] else [])
                 @ (if b2 then [(WARNING, ''Line exceeds recommended length (88 characters)'', 2)] else [])
                 @ (if startswith (str_strip l) ''import '' \<and> \<not> contains l ''#''
                    then [(INFO, ''Verify that this import is actually used'', 1)] else [])"
proof -
  assume a: "analyze_python_line l = Inr ext"
  then obtain found where
    "ext = (if found \<and> \<not> contains l ''->''
            then [(SUGGESTION, ''Consider adding type hints for better code clarity'', 2)] else [])
         @ (if length (str_strip l) > 88
            then [(WARNING, ''Line exceeds recommended length (88 characters)'', 2)] else [])
         @ (if startswith (str_strip l) ''import '' \<and> \<not> contains l ''#''
            then [(INFO, ''Verify that this import is actually used'', 1)] else [])"
    unfolding analyze_python_line_def by (auto split: sum.splits)
  then show ?thesis by blast
qed

text \<open>
  C5. In the feedback of an analyzed file, the findings of one added line (those
  carrying its line number) are: the errors of the security rules that match the
  line, in the order of the security table; then the warnings of the quality
  rules that match, in the order of the quality table; then the findings of the
  extension-specific rules, in the order type hint, line length, import. This
  holds for every analyzer, file path and list of added lines.
\<close>

theorem findings_order:
  assumes "analyze_file_changes self file_path changes = Inr fb" and "n < length changes"
  shows "\<exists>b1 b2 b3.
           filter (\<lambda>f. line f = int n + 1) fb
             = map (\<lambda>issue. \<lparr>file = file_path, line = int n + 1, type = ERROR, message = issue,
                               severity = 5, suggestion = None\<rparr>)
                 (matching (security_patterns self) (changes ! n))
             @ map (\<lambda>issue. \<lparr>file = file_path, line = int n + 1, type = WARNING, message = issue,
                                 severity = 3, suggestion = None\<rparr>)
                 (matching (quality_patterns self) (changes ! n))
             @ map (\<lambda>(t, m, s). \<lparr>file = file_path, line = int n + 1, type = t, message = m,
                                     severity = s, suggestion = None\<rparr>)
                 ((if b1 then [(SUGGESTION, ''Consider adding type hints for better code clarity'', 2)]
                   else [])
                  @ (if b2 then [(WARNING, ''Line exceeds recommended length (88 characters)'', 2)]
                     else [])
                  @ (if b3 then [(INFO, ''Verify that this import is actually used'', 1)] else []))"
proof -
  from assms(1) have "analyze_lines self file_path 1 changes [] = Inr fb"
    by (simp add: analyze_file_changes_def)
  from analyze_lines_filter [OF this _ assms(2)]
  have "analyze_line self file_path (1 + int n) (changes ! n)
          = Inr (filter (\<lambda>f. line f = 1 + int n) fb)" by simp
  then have al: "analyze_line self file_path (int n + 1) (changes ! n)
          = Inr (filter (\<lambda>f. line f = int n + 1) fb)" by (simp add: add.commute)
  from analyze_line_Inr [OF al] obtain ext where
    e: "(if endswith file_path ''.py'' then analyze_python_line (changes ! n) else Inr []) = Inr ext"
    and out: "filter (\<lambda>f. line f = int n + 1) fb
      = map (\<lambda>issue. \<lparr>file = file_path, line = int n + 1, type = ERROR, message = issue,
                        severity = 5, suggestion = None\<rparr>)
          (matching (security_patterns self) (changes ! n))
        @ map (\<lambda>issue. \<lparr>file = file_path, line = int n + 1, type = WARNING, message = issue,
                          severity = 3, suggestion = None\<rparr>)
          (matching (quality_patterns self) (changes ! n))
        @ map (\<lambda>(t, m, s). \<lparr>file = file_path, line = int n + 1, type = t, message = m,
                              severity = s, suggestion = None\<rparr>) ext"
    by blast
  have "\<exists>b1 b2 b3. ext
      = (if b1 then [(SUGGESTION, ''Consider adding type hints for better code clarity'', 2)] else [])
        @ (if b2 then [(WARNING, ''Line exceeds recommended length (88 characters)'', 2)] else [])
        @ (if b3 then [(INFO, ''Verify that this import is actually used'', 1)] else [])"
  proof (cases "endswith file_path ''.py''")
    case True
    with e have "analyze_python_line (changes ! n) = Inr ext" by simp
    from analyze_python_line_shape [OF this] show ?thesis by blast
  next
    case False
    with e have "ext = []" by simp
    then have "ext
      = (if False then [(SUGGESTION, ''Consider adding type hints for better code clarity'', 2)] else [])
        @ (if False then [(WARNING, ''Line exceeds recommended length (88 characters)'', 2)] else [])
        @ (if False then [(INFO, ''Verify that this import is actually used'', 1)] else [])"
      by simp
    then show ?thesis by blast
  qed
  then obtain b1 b2 b3 where ext: "ext
      = (if b1 then [(SUGGESTION, ''Consider adding type hints for better code clarity'', 2)] else [])
        @ (if b2 then [(WARNING, ''Line exceeds recommended length (88 characters)'', 2)] else [])
        @ (if b3 then [(INFO, ''Verify that this import is actually used'', 1)] else [])"
    by blast
  show ?thesis
    apply (rule exI [of _ b1])
    apply (rule exI [of _ b2])
    apply (rule exI [of _ b3])
    apply (simp only: out ext)
    done
qed

theorem findings_order_witness:
  "analyze_file_changes init ''a.py'' [''x = 1'', ''print(eval(x))'']
     = Inr [\<lparr>file = ''a.py'', line = 2, type = ERROR,
              message = ''Avoid using eval() as it can execute arbitrary code'', severity = 5,
              suggestion = None\<rparr>,
            \<lparr>file = ''a.py'', line = 2, type = WARNING,
              message = ''Consider using logging instead of print statements'', severity = 3,
              suggestion = None\<rparr>]
   \<and> (1::nat) < length [''x = 1'', ''print(eval(x))'']
   \<and> (\<exists>b1 b2 b3.
        filter (\<lambda>f. line f = int 1 + 1)
          [\<lparr>file = ''a.py'', line = 2, type = ERROR,
             message = ''Avoid using eval() as it can execute arbitrary code'', severity = 5,
             suggestion = None\<rparr>,
           \<lparr>file = ''a.py'', line = 2, type = WARNING,
             message = ''Consider using logging instead of print statements'', severity = 3,
             suggestion = None\<rparr>]
        = map (\<lambda>issue. \<lparr>file = ''a.py'', line = int 1 + 1, type = ERROR, message = issue,
                          severity = 5, suggestion = None\<rparr>)
            (matching (security_patterns init) ([''x = 1'', ''print(eval(x))''] ! 1))
          @ map (\<lambda>issue. \<lparr>file = ''a.py'', line = int 1 + 1, type = WARNING, message = issue,
                            severity = 3, suggestion = None\<rparr>)
              (matching (quality_patterns init) ([''x = 1'', ''print(eval(x))''] ! 1))
          @ map (\<lambda>(t, m, s). \<lparr>file = ''a.py'', line = int 1 + 1, type = t, message = m,
                                severity = s, suggestion = None\<rparr>)
              ((if b1 then [(SUGGESTION, ''Consider adding type hints for better code clarity'', 2)]
                else [])
               @ (if b2 then [(WARNING, ''Line exceeds recommended length (88 characters)'', 2)]
                  else [])
               @ (if b3 then [(INFO, ''Verify that this import is actually used'', 1)] else [])))"
proof -
  have h1: "analyze_file_changes init ''a.py'' [''x = 1'', ''print(eval(x))'']
     = Inr [\<lparr>file = ''a.py'', line = 2, type = ERROR,
              message = ''Avoid using eval() as it can execute arbitrary code'', severity = 5,
              suggestion = None\<rparr>,
            \<lparr>file = ''a.py'', line = 2, type = WARNING,
              message = ''Consider using logging instead of print statements'', severity = 3,
              suggestion = None\<rparr>]"
    by code_simp
  have h2: "(1::nat) < length [''x = 1'', ''print(eval(x))'']" by simp
  from findings_order [OF h1 h2] h1 h2 show ?thesis by blast
qed

subsection \<open>The import rule\<close>

lemma contains_single: "contains s [c] = (c \<in> set s)"
proof -
  have "list_ex (\<lambda>t. startswith t [c]) (suffixes_of s) = (c \<in> set s)"
    by (induction s) (auto simp: startswith_def)
  then show ?thesis by (simp add: contains_def)
qed

lemma from_not_import: "startswith s ''from '' \<Longrightarrow> \<not> startswith s ''import ''"
  by (cases s) (auto simp: startswith_def)

lemma filter_info_python:
  assumes "analyze_python_line l = Inr ext"
  shows "filter (\<lambda>i. fst i = INFO) ext
           = (if startswith (str_strip l) ''import '' \<and> CHR ''#'' \<notin> set l
              then [(INFO, ''Verify that this import is actually used'', 1)] else [])"
proof -
  from assms obtain found where
    "ext = (if found \<and> \<not> contains l ''->''
            then [(SUGGESTION, ''Consider adding type hints for better code clarity'', 2)] else [])
         @ (if length (str_strip l) > 88
            then [(WARNING, ''Line exceeds recommended length (88 characters)'', 2)] else [])
         @ (if startswith (str_strip l) ''import '' \<and> \<not> contains l ''#''
            then [(INFO, ''Verify that this import is actually used'', 1)] else [])"
    unfolding analyze_python_line_def by (auto split: sum.splits)
  then show ?thesis by (simp add: contains_single)
qed

text \<open>
  C10. The analysis of an added line yields the import-verification finding
  (kind info, severity 1), once, exactly when the file path ends in \<^verbatim>\<open>.py\<close>, the
  stripped line starts with \<^verbatim>\<open>import \<close> and the line has no \<^verbatim>\<open>#\<close> anywhere; no
  other finding has the kind info. So a line of the form \<^verbatim>\<open>from X import Y\<close> never
  yields it, and neither does a line with a \<^verbatim>\<open>#\<close> in any position.
\<close>

theorem import_finding_condition:
  "\<exists>fb. analyze_line init file_path n l = Inr fb
     \<and> filter (\<lambda>f. type f = INFO) fb
         = (if endswith file_path ''.py'' \<and> startswith (str_strip l) ''import ''
               \<and> CHR ''#'' \<notin> set l
            then [\<lparr>file = file_path, line = n, type = INFO,
                    message = ''Verify that this import is actually used'', severity = 1,
                    suggestion = None\<rparr>]
            else [])
     \<and> (startswith (str_strip l) ''from '' \<longrightarrow> filter (\<lambda>f. type f = INFO) fb = [])
     \<and> (CHR ''#'' \<in> set l \<longrightarrow> filter (\<lambda>f. type f = INFO) fb = [])"
proof -
  obtain fb where fb: "analyze_line init file_path n l = Inr fb"
    using analyze_line_init_total by blast
  from analyze_line_Inr [OF fb] obtain ext where
    e: "(if endswith file_path ''.py'' then analyze_python_line l else Inr []) = Inr ext"
    and out: "fb = map (\<lambda>issue. \<lparr>file = file_path, line = n, type = ERROR, message = issue,
                                   severity = 5, suggestion = None\<rparr>)
                        (matching (security_patterns init) l)
                 @ map (\<lambda>issue. \<lparr>file = file_path, line = n, type = WARNING, message = issue,
                                     severity = 3, suggestion = None\<rparr>)
                        (matching (quality_patterns init) l)
                 @ map (\<lambda>(t, m, s). \<lparr>file = file_path, line = n, type = t, message = m,
                                         severity = s, suggestion = None\<rparr>) ext"
    by blast
  have fi: "filter (\<lambda>f. type f = INFO) fb
      = map (\<lambda>(t, m, s). \<lparr>file = file_path, line = n, type = t, message = m,
                            severity = s, suggestion = None\<rparr>)
          (filter (\<lambda>i. fst i = INFO) ext)"
    by (simp add: out filter_map o_def split_def)
  have ex: "filter (\<lambda>i. fst i = INFO) ext
      = (if endswith file_path ''.py'' \<and> startswith (str_strip l) ''import '' \<and> CHR ''#'' \<notin> set l
         then [(INFO, ''Verify that this import is actually used'', 1)] else [])"
  proof (cases "endswith file_path ''.py''")
    case True
    with e have "analyze_python_line l = Inr ext" by simp
    from filter_info_python [OF this] True show ?thesis by simp
  next
    case False
    with e show ?thesis by simp
  qed
  have main: "filter (\<lambda>f. type f = INFO) fb
         = (if endswith file_path ''.py'' \<and> startswith (str_strip l) ''import ''
               \<and> CHR ''#'' \<notin> set l
            then [\<lparr>file = file_path, line = n, type = INFO,
                    message = ''Verify that this import is actually used'', severity = 1,
                    suggestion = None\<rparr>]
            else [])"
    by (simp add: fi ex)
  have frm: "startswith (str_strip l) ''from '' \<longrightarrow> filter (\<lambda>f. type f = INFO) fb = []"
    using from_not_import [of "str_strip l"] by (simp add: main)
  have hash: "CHR ''#'' \<in> set l \<longrightarrow> filter (\<lambda>f. type f = INFO) fb = []"
    by (simp add: main)
  from fb main frm hash show ?thesis by blast
qed

theorem import_finding_condition_witness:
  "startswith (str_strip ''from os import path  # posix'') ''from ''
   \<and> CHR ''#'' \<in> set ''from os import path  # posix''
   \<and> (\<exists>fb. analyze_line init ''a.py'' 1 ''from os import path  # posix'' = Inr fb
          \<and> filter (\<lambda>f. type f = INFO) fb = [])"
proof -
  have h1: "startswith (str_strip ''from os import path  # posix'') ''from ''" by code_simp
  have h2: "CHR ''#'' \<in> set ''from os import path  # posix''" by simp
  from import_finding_condition [of "''a.py''" 1 "''from os import path  # posix''"] h1 h2
  show ?thesis by blast
qed

section \<open>Properties of the scorer\<close>

lemma add_penalty_spec: "add_penalty t f = t + spec_penalty f"
  by (cases "type f") (simp_all add: add_penalty_def spec_penalty_def)

lemma foldl_add_penalty: "foldl add_penalty t fs = t + sum_list (map spec_penalty fs)"
proof (induction fs arbitrary: t)
  case Nil
  show ?case by simp
next
  case (Cons f fs)
  have "foldl add_penalty t (f # fs) = foldl add_penalty (add_penalty t f) fs" by simp
  also have "\<dots> = add_penalty t f + sum_list (map spec_penalty fs)" by (rule Cons.IH)
  also have "\<dots> = t + sum_list (map spec_penalty (f # fs))"
    by (simp add: add_penalty_spec)
  finally show ?case .
qed

lemma spec_penalty_nonneg: "0 \<le> severity f \<Longrightarrow> 0 \<le> spec_penalty f"
  by (cases "type f") (simp_all add: spec_penalty_def)

lemma sum_penalty_nonneg:
  "\<forall>f\<in>set fs. 0 \<le> severity f \<Longrightarrow> 0 \<le> sum_list (map spec_penalty fs)"
  by (induction fs) (simp_all add: spec_penalty_nonneg)

lemma calculate_score_nonempty:
  "fs \<noteq> [] \<Longrightarrow> calculate_score fs = \<lfloor>100 - min 100 (sum_list (map spec_penalty fs))\<rfloor>"
proof -
  assume ne: "fs \<noteq> []"
  have "(0::rat) \<le> 100 - min 100 (sum_list (map spec_penalty fs))" by simp
  then show ?thesis
    using ne by (simp add: calculate_score_def py_int_def foldl_add_penalty Let_def max_def)
qed

lemma calculate_score_lower: "0 \<le> calculate_score fs"
proof (cases "fs = []")
  case True
  then show ?thesis by (simp add: calculate_score_def)
next
  case False
  have "(0::rat) \<le> 100 - min 100 (sum_list (map spec_penalty fs))" by simp
  then have "0 \<le> \<lfloor>100 - min 100 (sum_list (map spec_penalty fs))\<rfloor>"
    by (simp only: zero_le_floor)
  with False show ?thesis by (simp add: calculate_score_nonempty)
qed

lemma calculate_score_upper:
  assumes "\<forall>f\<in>set fs. 0 \<le> severity f"
  shows "calculate_score fs \<le> 100"
proof (cases "fs = []")
  case True
  then show ?thesis by (simp add: calculate_score_def)
next
  case False
  have "0 \<le> sum_list (map spec_penalty fs)" using assms by (rule sum_penalty_nonneg)
  then have "100 - min 100 (sum_list (map spec_penalty fs)) \<le> (100::rat)" by simp
  then have "\<lfloor>100 - min 100 (sum_list (map spec_penalty fs))\<rfloor> \<le> \<lfloor>100::rat\<rfloor>"
    by (rule floor_mono)
  with False show ?thesis by (simp add: calculate_score_nonempty)
qed

text \<open>
  Every finding the analysis produces has one of the severities 5, 3, 2 and 1 that
  the code fixes, whatever the rule tables and the diff.
\<close>

lemma analyze_python_line_in_scale:
  "analyze_python_line l = Inr ext \<Longrightarrow> i \<in> set ext \<Longrightarrow> 1 \<le> snd (snd i) \<and> snd (snd i) \<le> 5"
  unfolding analyze_python_line_def by (auto split: sum.splits if_splits)

lemma analyze_line_in_scale:
  assumes "analyze_line self fp k l = Inr out" and "f \<in> set out"
  shows "severity_in_scale f"
proof -
  from analyze_line_Inr [OF assms(1)] obtain ext where
    e: "(if endswith fp ''.py'' then analyze_python_line l else Inr []) = Inr ext"
    and out: "out = map (\<lambda>issue. \<lparr>file = fp, line = k, type = ERROR, message = issue,
                                   severity = 5, suggestion = None\<rparr>)
                        (matching (security_patterns self) l)
                 @ map (\<lambda>issue. \<lparr>file = fp, line = k, type = WARNING, message = issue,
                                     severity = 3, suggestion = None\<rparr>)
                        (matching (quality_patterns self) l)
                 @ map (\<lambda>(t, m, s). \<lparr>file = fp, line = k, type = t, message = m,
                                         severity = s, suggestion = None\<rparr>) ext"
    by blast
  have ext: "1 \<le> snd (snd i) \<and> snd (snd i) \<le> 5" if "i \<in> set ext" for i
  proof (cases "endswith fp ''.py''")
    case True
    with e have "analyze_python_line l = Inr ext" by simp
    from analyze_python_line_in_scale [OF this that] show ?thesis .
  next
    case False
    with e that show ?thesis by simp
  qed
  from assms(2) ext show ?thesis
    unfolding out severity_in_scale_def by (auto simp: split_def)
qed

lemma analyze_lines_in_scale:
  "analyze_lines self fp k ls acc = Inr fb \<Longrightarrow> list_all severity_in_scale acc
     \<Longrightarrow> list_all severity_in_scale fb"
proof (induction ls arbitrary: k acc)
  case Nil
  then show ?case by simp
next
  case (Cons l ls)
  from Cons.prems(1) obtain out where
    o: "analyze_line self fp k l = Inr out" and
    r: "analyze_lines self fp (k + 1) ls (acc @ out) = Inr fb"
    by (auto split: sum.splits)
  have "list_all severity_in_scale out"
    using analyze_line_in_scale [OF o] by (simp add: list_all_iff)
  with Cons.prems(2) have "list_all severity_in_scale (acc @ out)" by simp
  from Cons.IH [OF r this] show ?case .
qed

lemma analyze_files_in_scale:
  "analyze_files self secs acc = Inr fb \<Longrightarrow> list_all severity_in_scale acc
     \<Longrightarrow> list_all severity_in_scale fb"
proof (induction secs arbitrary: acc)
  case Nil
  then show ?case by simp
next
  case (Cons s secs)
  obtain fp changes where s: "s = (fp, changes)" by (cases s)
  show ?case
  proof (cases "is_code_file fp")
    case True
    with Cons.prems(1) s obtain ffb where
      f: "analyze_file_changes self fp changes = Inr ffb" and
      r: "analyze_files self secs (acc @ ffb) = Inr fb"
      by (auto split: sum.splits)
    from f have "list_all severity_in_scale ffb"
      using analyze_lines_in_scale [of self fp 1 changes "[]" ffb]
      by (simp add: analyze_file_changes_def)
    with Cons.prems(2) have "list_all severity_in_scale (acc @ ffb)" by simp
    from Cons.IH [OF r this] show ?thesis .
  next
    case False
    with Cons.prems(1) s have "analyze_files self secs acc = Inr fb" by simp
    from Cons.IH [OF this Cons.prems(2)] show ?thesis .
  qed
qed

lemma analyze_changes_in_scale:
  assumes "analyze_changes self diff_content = Inr (sc, fb)"
  shows "sc = calculate_score fb \<and> list_all severity_in_scale fb"
proof -
  from assms obtain secs where "analyze_files self secs [] = Inr fb" and "sc = calculate_score fb"
    unfolding analyze_changes_def by (auto split: sum.splits)
  with analyze_files_in_scale [of self secs "[]" fb] show ?thesis by simp
qed

text \<open>
  C1. Nothing checks that a severity lies on the scale, and the score is not
  within 0..100 for every sequence of findings: one error of severity -1 has
  the penalty -3 and the score 103.
\<close>

theorem calculate_score_bounds_counterexample:
  "calculate_score [\<lparr>file = ''a.py'', line = 1, type = ERROR, message = ''m'', severity = - 1,
                       suggestion = None\<rparr>] = 103"
  by (simp add: calculate_score_def add_penalty_def py_int_def)

text \<open>
  C1, amended. The score of the empty sequence is 100. For every sequence of
  findings with severities on the 1-5 scale of the data model, the score is the
  specification's formula (100 minus the summed per-finding penalties, the sum
  clamped to at most 100, the result floored and clamped to at least 0) and lies
  in 0..100. The feedback of every run of the pipeline is such a sequence, so
  every run scores in 0..100.
\<close>

theorem calculate_score_spec:
  "calculate_score [] = 100
   \<and> ((\<forall>f\<in>set fs. severity_in_scale f)
        \<longrightarrow> calculate_score fs = spec_score fs \<and> 0 \<le> calculate_score fs
            \<and> calculate_score fs \<le> 100)
   \<and> (analyze_changes self diff_content = Inr (sc, fb)
        \<longrightarrow> list_all severity_in_scale fb \<and> sc = calculate_score fb \<and> 0 \<le> sc \<and> sc \<le> 100)"
proof -
  have a: "calculate_score fs = spec_score fs"
  proof (cases "fs = []")
    case True
    then show ?thesis by (simp add: calculate_score_def spec_score_def)
  next
    case False
    have "(0::rat) \<le> 100 - min 100 (sum_list (map spec_penalty fs))" by simp
    then have "0 \<le> \<lfloor>100 - min 100 (sum_list (map spec_penalty fs))\<rfloor>"
      by (simp only: zero_le_floor)
    with False show ?thesis
      by (simp add: calculate_score_nonempty spec_score_def)
  qed
  have b: "calculate_score [] = 100" by (simp add: calculate_score_def)
  have c: "calculate_score fs \<le> 100" if "\<forall>f\<in>set fs. severity_in_scale f"
    using that by (auto simp: severity_in_scale_def intro!: calculate_score_upper)
  have d: "list_all severity_in_scale fb \<and> sc = calculate_score fb \<and> 0 \<le> sc \<and> sc \<le> 100"
    if run: "analyze_changes self diff_content = Inr (sc, fb)"
  proof -
    from analyze_changes_in_scale [OF run] have sc: "sc = calculate_score fb"
      and sev: "list_all severity_in_scale fb" by blast+
    from sev have "\<forall>f\<in>set fb. 0 \<le> severity f"
      by (auto simp: list_all_iff severity_in_scale_def)
    then have "calculate_score fb \<le> 100" by (rule calculate_score_upper)
    with sc sev calculate_score_lower [of fb] show ?thesis by simp
  qed
  from a b c d calculate_score_lower [of fs] show ?thesis by blast
qed

theorem calculate_score_spec_witness:
  "severity_in_scale \<lparr>file = ''app.py'', line = 1, type = ERROR, message = ''m'', severity = 5,
                       suggestion = None\<rparr>
   \<and> severity_in_scale \<lparr>file = ''app.py'', line = 2, type = INFO, message = ''n'', severity = 1,
                       suggestion = None\<rparr>
   \<and> calculate_score [\<lparr>file = ''app.py'', line = 1, type = ERROR, message = ''m'', severity = 5,
                         suggestion = None\<rparr>,
                       \<lparr>file = ''app.py'', line = 2, type = INFO, message = ''n'', severity = 1,
                         suggestion = None\<rparr>] = 84
   \<and> calculate_score [\<lparr>file = ''app.py'', line = 1, type = ERROR, message = ''m'', severity = 5,
                         suggestion = None\<rparr>,
                       \<lparr>file = ''app.py'', line = 2, type = INFO, message = ''n'', severity = 1,
                         suggestion = None\<rparr>] \<le> 100
   \<and> analyze_changes init (join_lines [''diff --git a/a.py b/a.py'', ''+print(x)''])
       = Inr (94, [\<lparr>file = ''a.py'', line = 1, type = WARNING,
                      message = ''Consider using logging instead of print statements'',
                      severity = 3, suggestion = None\<rparr>])
   \<and> 94 = calculate_score [\<lparr>file = ''a.py'', line = 1, type = WARNING,
                      message = ''Consider using logging instead of print statements'',
                      severity = 3, suggestion = None\<rparr>]"
proof -
  let ?fs = "[\<lparr>file = ''app.py'', line = 1, type = ERROR, message = ''m'', severity = 5,
                suggestion = None\<rparr>,
              \<lparr>file = ''app.py'', line = 2, type = INFO, message = ''n'', severity = 1,
                suggestion = None\<rparr>]"
  let ?t = "join_lines [''diff --git a/a.py b/a.py'', ''+print(x)'']"
  let ?fb = "[\<lparr>file = ''a.py'', line = 1, type = WARNING,
                message = ''Consider using logging instead of print statements'',
                severity = 3, suggestion = None\<rparr>]"
  have h: "\<forall>f\<in>set ?fs. severity_in_scale f" by (simp add: severity_in_scale_def)
  have s: "spec_score ?fs = 84"
  proof -
    have "(100::rat) - min 100 (15 + 1 / 2) = 169 / 2" by simp
    moreover have "\<lfloor>169 / 2 :: rat\<rfloor> = 84" by (rule floor_unique) simp_all
    ultimately show ?thesis by (simp add: spec_score_def spec_penalty_def)
  qed
  have run: "analyze_changes init ?t = Inr (94, ?fb)" by code_simp
  have f1: "severity_in_scale \<lparr>file = ''app.py'', line = 1, type = ERROR, message = ''m'',
                                severity = 5, suggestion = None\<rparr>"
    and f2: "severity_in_scale \<lparr>file = ''app.py'', line = 2, type = INFO, message = ''n'',
                                severity = 1, suggestion = None\<rparr>"
    by (simp_all add: severity_in_scale_def)
  from calculate_score_spec [of ?fs init ?t 94 ?fb] h run
  have "calculate_score ?fs = spec_score ?fs" and "calculate_score ?fs \<le> 100"
    and "94 = calculate_score ?fb" by blast+
  with s f1 f2 run show ?thesis by simp
qed

text \<open>
  C6. Appending one more finding of kind error, with a severity on the 1-5 scale,
  never increases the score.
\<close>

theorem calculate_score_error_mono:
  assumes "type f = ERROR" and "severity_in_scale f"
  shows "calculate_score (fs @ [f]) \<le> calculate_score fs"
proof (cases "fs = []")
  case True
  have "\<forall>g\<in>set [f]. 0 \<le> severity g" using assms(2) by (simp add: severity_in_scale_def)
  then have "calculate_score [f] \<le> 100" by (rule calculate_score_upper)
  with True show ?thesis by (simp add: calculate_score_def)
next
  case False
  have "0 \<le> spec_penalty f" using assms(2) by (simp add: spec_penalty_nonneg severity_in_scale_def)
  then have "sum_list (map spec_penalty fs) \<le> sum_list (map spec_penalty (fs @ [f]))" by simp
  then have "100 - min 100 (sum_list (map spec_penalty (fs @ [f])))
             \<le> 100 - min 100 (sum_list (map spec_penalty fs))" by (simp add: min_def)
  then have "\<lfloor>100 - min 100 (sum_list (map spec_penalty (fs @ [f])))\<rfloor>
             \<le> \<lfloor>100 - min 100 (sum_list (map spec_penalty fs))\<rfloor>" by (rule floor_mono)
  with False show ?thesis by (simp add: calculate_score_nonempty)
qed

theorem calculate_score_error_mono_witness:
  "type \<lparr>file = ''a.py'', line = 2, type = ERROR, message = ''m'', severity = 5, suggestion = None\<rparr>
      = ERROR
   \<and> severity_in_scale
        \<lparr>file = ''a.py'', line = 2, type = ERROR, message = ''m'', severity = 5, suggestion = None\<rparr>
   \<and> calculate_score
        ([\<lparr>file = ''a.py'', line = 1, type = WARNING, message = ''w'', severity = 3,
           suggestion = None\<rparr>]
         @ [\<lparr>file = ''a.py'', line = 2, type = ERROR, message = ''m'', severity = 5,
              suggestion = None\<rparr>])
      \<le> calculate_score
           [\<lparr>file = ''a.py'', line = 1, type = WARNING, message = ''w'', severity = 3,
              suggestion = None\<rparr>]"
proof -
  let ?f = "\<lparr>file = ''a.py'', line = 2, type = ERROR, message = ''m'', severity = 5,
              suggestion = None\<rparr>"
  have h1: "type ?f = ERROR" by simp
  have h2: "severity_in_scale ?f" by (simp add: severity_in_scale_def)
  from calculate_score_error_mono [OF h1 h2] h1 h2 show ?thesis by blast
qed

section \<open>The scenario of a bare function signature\<close>






end
